theory Spec2Isabelle
  imports Main
begin

section \<open>Data model\<close>

text \<open>
  The \<open>Post\<close> entity of the relational store, as \<open>posts.ts\<close> uses it: the fields
  \<open>id\<close>, \<open>content\<close>, \<open>authorId\<close> and \<open>createdAt\<close>. The creation time is a number of
  milliseconds.
\<close>

record Post =
  post_id :: string
  content :: string
  authorId :: string
  createdAt :: int

text \<open>
  A user record of the identity directory. Besides the fields that reach the client it
  carries data that must not (\<open>emailAddresses\<close> stands for it).
\<close>

record User =
  user_id :: string
  user_username :: string
  user_profileImageUrl :: string
  emailAddresses :: "string list"

record AuthorProfile =
  profile_id :: string
  username :: string
  profileImageUrl :: string

text \<open>The object \<open>{ post, author }\<close> that \<open>addUserDataToPosts\<close> builds for each post.\<close>

record FullPost =
  post :: Post
  author :: AuthorProfile

text \<open>\<open>TRPCError({ code, message })\<close>: the error every handler throws.\<close>

datatype code = INTERNAL_SERVER_ERROR | TOO_MANY_REQUESTS | BAD_REQUEST | UNAUTHORIZED

datatype trpc_error = TRPCError code string

text \<open>
  The request context: the handle on the post store (here the rows themselves, oldest
  insertion first) and the caller's identity, \<open>null\<close> when nobody is signed in.
\<close>

record ctx =
  prisma :: "Post list"
  currentUserId :: "string option"

section \<open>Collaborators\<close>

text \<open>
  The identity directory client, taken as a parameter: \<open>getUser id\<close> and
  \<open>getUserList ids limit\<close> are whatever the service answers.
\<close>

record clerkClient =
  getUser :: "string \<Rightarrow> User option"
  getUserList :: "string list \<Rightarrow> nat \<Rightarrow> User list"

text \<open>
  Modelled from the spec: \<open>filterUsersForClient\<close> of
  \<open>src/server/helpers/filterUserForClient.ts\<close>, which is not among the sources. The spec
  calls its result a projection of an external user record limited to client-safe fields,
  joined to posts by \<open>authorId\<close>.
\<close>

definition filterUsersForClient :: "User \<Rightarrow> AuthorProfile" where
  "filterUsersForClient user =
     \<lparr>profile_id = user_id user, username = user_username user,
      profileImageUrl = user_profileImageUrl user\<rparr>"

text \<open>
  Modelled from the spec: an in-memory identity directory holding the given user records,
  with the two operations the spec names: get user by id, and batch-get users by id list
  with a limit.
\<close>

definition directory :: "User list \<Rightarrow> clerkClient" where
  "directory users =
     \<lparr>getUser = (\<lambda>i. find (\<lambda>u. user_id u = i) users),
      getUserList = (\<lambda>ids limit. take limit (filter (\<lambda>u. user_id u \<in> set ids) users))\<rparr>"

text \<open>
  Modelled from the spec: the store's query \<open>findMany\<close> with \<open>orderBy: [{ createdAt: "desc" }]\<close>,
  an optional \<open>where: { authorId }\<close> and a \<open>take\<close>: find-many posts ordered by createdAt
  descending, limited, optionally filtered by authorId. Rows of equal creation time keep
  their insertion order.
\<close>

record findManyArgs =
  where_authorId :: "string option"
  take_arg :: nat

definition findMany :: "Post list \<Rightarrow> findManyArgs \<Rightarrow> Post list" where
  "findMany rows args =
     take (take_arg args)
       (sort_key (\<lambda>p. - createdAt p)
          (filter (\<lambda>p. case where_authorId args of None \<Rightarrow> True | Some a \<Rightarrow> authorId p = a) rows))"

text \<open>
  The store's insert: the store supplies the new row's \<open>id\<close> and \<open>createdAt\<close> (the pair
  \<open>gen\<close>), the caller the \<open>data\<close>. It returns the persisted row and the rows after it.
\<close>

definition post_create :: "Post list \<Rightarrow> string \<times> int \<Rightarrow> string \<Rightarrow> string \<Rightarrow> Post \<times> Post list" where
  "post_create rows gen a c =
     (let p = \<lparr>post_id = fst gen, content = c, authorId = a, createdAt = snd gen\<rparr>
      in (p, rows @ [p]))"

section \<open>Author enrichment\<close>

text \<open>
  The callback of \<open>posts.map\<close> in \<open>addUserDataToPosts\<close>, run over the posts from left to
  right: the first post without an author throws, and nothing is returned.
\<close>

fun fullPosts :: "AuthorProfile list \<Rightarrow> Post list \<Rightarrow> trpc_error + FullPost list" where
  "fullPosts users [] = Inr []"
| "fullPosts users (p # ps) =
     (case find (\<lambda>user. profile_id user = authorId p) users of
        None \<Rightarrow> Inl (TRPCError INTERNAL_SERVER_ERROR ''Author for post not found'')
      | Some a \<Rightarrow>
          (case fullPosts users ps of
             Inl e \<Rightarrow> Inl e
           | Inr fps \<Rightarrow> Inr (\<lparr>post = p, author = a\<rparr> # fps)))"

definition addUserDataToPosts :: "clerkClient \<Rightarrow> Post list \<Rightarrow> trpc_error + FullPost list" where
  "addUserDataToPosts clerk posts =
     (let users = map filterUsersForClient (getUserList clerk (map authorId posts) 100)
      in fullPosts users posts)"

text \<open>
  A post of the list is unmatched when the batch that \<open>addUserDataToPosts\<close> requests for the
  list holds no user record with the post's \<open>authorId\<close>.
\<close>

definition unmatched :: "clerkClient \<Rightarrow> Post list \<Rightarrow> bool" where
  "unmatched clerk posts =
     (\<exists>p \<in> set posts. \<forall>u \<in> set (getUserList clerk (map authorId posts) 100). user_id u \<noteq> authorId p)"

section \<open>Post listing\<close>

definition getAll :: "clerkClient \<Rightarrow> ctx \<Rightarrow> trpc_error + FullPost list" where
  "getAll clerk c =
     (let posts = findMany (prisma c) \<lparr>where_authorId = None, take_arg = 100\<rparr>
      in addUserDataToPosts clerk posts)"

definition getPostsByUserId :: "clerkClient \<Rightarrow> ctx \<Rightarrow> string \<Rightarrow> trpc_error + FullPost list" where
  "getPostsByUserId clerk c input_id =
     (case getUser clerk input_id of
        None \<Rightarrow> Inl (TRPCError INTERNAL_SERVER_ERROR ''Author for post not found'')
      | Some a \<Rightarrow>
          (let posts = findMany (prisma c) \<lparr>where_authorId = Some (user_id a), take_arg = 100\<rparr>
           in addUserDataToPosts clerk posts))"

section \<open>Post creation\<close>

text \<open>
  Modelled from the spec: the gate of \<open>privateProcedure\<close> (\<open>src/server/api/trpc.ts\<close> is not
  among the sources). The spec says that \<open>create\<close> requires an authenticated caller, whose
  identity the request context supplies, and that an unauthenticated call is rejected. The
  spec gives the rejection no name; it is the error \<open>UNAUTHORIZED\<close> here. The gate hands
  the identity on to the steps after it.
\<close>

definition privateProcedure :: "ctx \<Rightarrow> trpc_error + string" where
  "privateProcedure c =
     (case currentUserId c of
        None \<Rightarrow> Inl (TRPCError UNAUTHORIZED ''UNAUTHORIZED'')
      | Some u \<Rightarrow> Inr u)"

text \<open>
  The input schema of \<open>create\<close>: \<open>z.string().min(1, ...).max(255, ...)\<close> on \<open>content\<close>. A
  failed parse is a \<open>BAD_REQUEST\<close>.
\<close>

definition create_input :: "string \<Rightarrow> trpc_error + string" where
  "create_input c =
     (if length c < 1 then Inl (TRPCError BAD_REQUEST ''Can't create empty post'')
      else if 255 < length c then Inl (TRPCError BAD_REQUEST ''Post too long'')
      else Inr c)"

text \<open>
  \<open>create\<close> is \<open>privateProcedure.input(...).mutation(...)\<close>: the gate, then the schema,
  then the body. The rate limiter is a parameter \<open>limit\<close>: asked with a key in a state of
  the limiter, it answers \<open>success\<close> and leaves the limiter in a new state. The result is
  what the call returns or throws, the limiter's state after it and the rows after it.
\<close>

definition create ::
  "(string \<Rightarrow> 'rl \<Rightarrow> bool \<times> 'rl) \<Rightarrow> string \<times> int \<Rightarrow> ctx \<Rightarrow> string \<Rightarrow> 'rl
     \<Rightarrow> (trpc_error + Post) \<times> 'rl \<times> Post list" where
  "create limit gen c input_content rl =
     (case privateProcedure c of
        Inl e \<Rightarrow> (Inl e, rl, prisma c)
      | Inr a \<Rightarrow>
          (case create_input input_content of
             Inl e \<Rightarrow> (Inl e, rl, prisma c)
           | Inr parsed \<Rightarrow>
               (let (success, rl') = limit a rl in
                if \<not> success
                then (Inl (TRPCError TOO_MANY_REQUESTS ''Too many post requests''), rl', prisma c)
                else (let (p, rows') = post_create (prisma c) gen a parsed
                      in (Inr p, rl', rows')))))"

text \<open>The context that \<open>generateSSHelper\<close> builds: the store, and no user.\<close>

definition generateSSHelper_ctx :: "Post list \<Rightarrow> ctx" where
  "generateSSHelper_ctx rows = \<lparr>prisma = rows, currentUserId = None\<rparr>"

section \<open>Rate limiting policy\<close>

text \<open>
  Modelled from the spec: the hosted rate limiter is not among the sources, which only
  configure it with \<open>Ratelimit.slidingWindow(3, "1 m")\<close>. The spec describes a sliding-window
  rate limit as a policy permitting at most N operations per key within any rolling time
  window of fixed length, and the client as check-and-consume(key) giving success or not.
  The limiter's state is the log of the consumptions it granted, newest first: the key and
  the time in milliseconds. A consumption at time \<open>t\<close> is inside the window at time \<open>now\<close>
  when \<open>now - t\<close> is less than the window's length.
\<close>

type_synonym window_log = "(string \<times> int) list"

definition in_window :: "int \<Rightarrow> int \<Rightarrow> string \<Rightarrow> window_log \<Rightarrow> window_log" where
  "in_window window now key log = filter (\<lambda>e. fst e = key \<and> now - snd e < window) log"

definition slidingWindow :: "nat \<Rightarrow> int \<Rightarrow> int \<Rightarrow> string \<Rightarrow> window_log \<Rightarrow> bool \<times> window_log" where
  "slidingWindow tokens window now key log =
     (if length (in_window window now key log) < tokens then (True, (key, now) # log)
      else (False, log))"

text \<open>\<open>ratelimit.limit(key)\<close> at the time \<open>now\<close>: 3 requests per 1 minute.\<close>

definition ratelimit_limit :: "int \<Rightarrow> string \<Rightarrow> window_log \<Rightarrow> bool \<times> window_log" where
  "ratelimit_limit now = slidingWindow 3 60000 now"

section \<open>Sequences of create calls\<close>

text \<open>
  A call of \<open>create\<close> as the server receives it: the time of the call, the caller's identity
  in the request context, the content sent, and the id the store gives the row if it
  writes one. The row's \<open>createdAt\<close> is the time of the call.
\<close>

record call =
  call_time :: int
  call_user :: "string option"
  call_content :: string
  call_row_id :: string

definition create_call ::
  "call \<Rightarrow> window_log \<times> Post list \<Rightarrow> (trpc_error + Post) \<times> window_log \<times> Post list" where
  "create_call k w =
     create (ratelimit_limit (call_time k)) (call_row_id k, call_time k)
       \<lparr>prisma = snd w, currentUserId = call_user k\<rparr> (call_content k) (fst w)"

text \<open>The calls are served one after the other; each sees the limiter and the rows the last one left.\<close>

fun run_creates :: "call list \<Rightarrow> window_log \<times> Post list \<Rightarrow> window_log \<times> Post list" where
  "run_creates [] w = w"
| "run_creates (k # ks) w = run_creates ks (snd (create_call k w))"

text \<open>
  A log respects the policy when every consumption in it was granted with fewer than 3
  consumptions of its key in the window before it.
\<close>

fun within_policy :: "window_log \<Rightarrow> bool" where
  "within_policy [] = True"
| "within_policy (e # log) =
     (length (in_window 60000 (snd e) (fst e) log) < 3 \<and> within_policy log)"

section \<open>Sample data\<close>

text \<open>Two users, three posts of theirs, and a post whose author the directory does not know.\<close>

definition alice :: User where
  "alice = \<lparr>user_id = ''user_1'', user_username = ''alice'', user_profileImageUrl = ''a.png'',
            emailAddresses = [''alice@example.com'']\<rparr>"

definition bob :: User where
  "bob = \<lparr>user_id = ''user_2'', user_username = ''bob'', user_profileImageUrl = ''b.png'',
          emailAddresses = []\<rparr>"

definition post1 :: Post where
  "post1 = \<lparr>post_id = ''p1'', content = ''first'', authorId = ''user_1'', createdAt = 1000\<rparr>"

definition post2 :: Post where
  "post2 = \<lparr>post_id = ''p2'', content = ''second'', authorId = ''user_2'', createdAt = 3000\<rparr>"

definition post3 :: Post where
  "post3 = \<lparr>post_id = ''p3'', content = ''third'', authorId = ''user_1'', createdAt = 2000\<rparr>"

definition orphan :: Post where
  "orphan = \<lparr>post_id = ''p4'', content = ''lost'', authorId = ''user_9'', createdAt = 4000\<rparr>"

text \<open>A directory client that knows alice by id and answers every batch request with nothing.\<close>

definition forgetful :: clerkClient where
  "forgetful = \<lparr>getUser = (\<lambda>i. if i = ''user_1'' then Some alice else None),
                getUserList = (\<lambda>ids limit. [])\<rparr>"

text \<open>A call of alice's at the given time, and the row it writes when it is granted.\<close>

definition call_at :: "int \<Rightarrow> call" where
  "call_at t = \<lparr>call_time = t, call_user = Some ''user_1'', call_content = ''hi'', call_row_id = ''row''\<rparr>"

definition row_at :: "int \<Rightarrow> Post" where
  "row_at t = \<lparr>post_id = ''row'', content = ''hi'', authorId = ''user_1'', createdAt = t\<rparr>"

lemmas sample_defs = alice_def bob_def post1_def post2_def post3_def orphan_def

section \<open>Enrichment: auxiliary facts\<close>

lemma fullPosts_fails:
  "p \<in> set ps \<Longrightarrow> \<forall>u \<in> set users. profile_id u \<noteq> authorId p \<Longrightarrow>
   fullPosts users ps = Inl (TRPCError INTERNAL_SERVER_ERROR ''Author for post not found'')"
proof (induction ps)
  case Nil
  then show ?case by simp
next
  case (Cons q qs)
  show ?case
  proof (cases "find (\<lambda>user. profile_id user = authorId q) users")
    case None
    then show ?thesis by simp
  next
    case (Some a)
    then have "q \<noteq> p" using Cons.prems(2) by (auto simp: find_Some_iff)
    then have "p \<in> set qs" using Cons.prems(1) by simp
    then have "fullPosts users qs = Inl (TRPCError INTERNAL_SERVER_ERROR ''Author for post not found'')"
      using Cons.IH Cons.prems(2) by blast
    then show ?thesis using Some by simp
  qed
qed

lemma fullPosts_error:
  "fullPosts users ps = Inl e \<Longrightarrow> e = TRPCError INTERNAL_SERVER_ERROR ''Author for post not found''"
  by (induction ps) (auto split: option.splits sum.splits)

lemma fullPosts_length: "fullPosts users ps = Inr fps \<Longrightarrow> length fps = length ps"
  by (induction ps arbitrary: fps) (auto split: option.splits sum.splits)

lemma fullPosts_nth:
  "fullPosts users ps = Inr fps \<Longrightarrow> i < length ps \<Longrightarrow>
   post (fps ! i) = ps ! i \<and>
   find (\<lambda>user. profile_id user = authorId (ps ! i)) users = Some (author (fps ! i))"
proof (induction ps arbitrary: fps i)
  case Nil
  then show ?case by simp
next
  case (Cons q qs)
  then obtain a rest where a: "find (\<lambda>user. profile_id user = authorId q) users = Some a"
    and rest: "fullPosts users qs = Inr rest" and fps: "fps = \<lparr>post = q, author = a\<rparr> # rest"
    by (auto split: option.splits sum.splits)
  show ?case
  proof (cases i)
    case 0
    then show ?thesis using a fps by simp
  next
    case (Suc j)
    then have "j < length qs" using Cons.prems(2) by simp
    then show ?thesis using Cons.IH [OF rest] Suc fps by simp
  qed
qed

lemma fullPosts_posts: "fullPosts users ps = Inr fps \<Longrightarrow> map post fps = ps"
  by (induction ps arbitrary: fps) (auto split: option.splits sum.splits)

lemma find_profile_id: "find (\<lambda>user. profile_id user = k) users = Some a \<Longrightarrow> a \<in> set users \<and> profile_id a = k"
  by (auto simp: find_Some_iff)

lemma fullPosts_succeeds:
  "\<forall>p \<in> set ps. \<exists>u \<in> set users. profile_id u = authorId p \<Longrightarrow> \<exists>fps. fullPosts users ps = Inr fps"
proof (induction ps)
  case Nil
  then show ?case by simp
next
  case (Cons q qs)
  then obtain rest where rest: "fullPosts users qs = Inr rest" by auto
  from Cons.prems obtain u where "u \<in> set users" "profile_id u = authorId q" by auto
  then have "find (\<lambda>user. profile_id user = authorId q) users \<noteq> None"
    by (auto simp: find_None_iff)
  then show ?case using rest by auto
qed

lemma addUserDataToPosts_posts: "addUserDataToPosts clerk posts = Inr fps \<Longrightarrow> map post fps = posts"
  by (simp add: addUserDataToPosts_def fullPosts_posts)

lemma addUserDataToPosts_unmatched:
  assumes "unmatched clerk posts"
  shows "addUserDataToPosts clerk posts =
         Inl (TRPCError INTERNAL_SERVER_ERROR ''Author for post not found'')"
proof -
  let ?batch = "getUserList clerk (map authorId posts) 100"
  from assms obtain p where p: "p \<in> set posts" "\<forall>u \<in> set ?batch. user_id u \<noteq> authorId p"
    by (auto simp: unmatched_def)
  then have "\<forall>a \<in> set (map filterUsersForClient ?batch). profile_id a \<noteq> authorId p"
    by (auto simp: filterUsersForClient_def)
  from fullPosts_fails [OF p(1) this] show ?thesis
    by (simp add: addUserDataToPosts_def)
qed

lemma addUserDataToPosts_authors:
  assumes "addUserDataToPosts clerk posts = Inr fps" and "fp \<in> set fps"
  shows "\<exists>u \<in> set (getUserList clerk (map authorId posts) 100).
           author fp = filterUsersForClient u \<and> user_id u = authorId (post fp)"
proof -
  let ?users = "map filterUsersForClient (getUserList clerk (map authorId posts) 100)"
  from assms(1) have run: "fullPosts ?users posts = Inr fps"
    by (simp add: addUserDataToPosts_def)
  from assms(2) obtain i where i: "i < length fps" "fps ! i = fp"
    by (auto simp: in_set_conv_nth)
  then have "i < length posts" using fullPosts_length [OF run] by simp
  from fullPosts_nth [OF run this] i
  have "post fp = posts ! i" and "find (\<lambda>user. profile_id user = authorId (posts ! i)) ?users = Some (author fp)"
    by simp_all
  then have "author fp \<in> set ?users" and "profile_id (author fp) = authorId (post fp)"
    using find_profile_id by fastforce+
  then show ?thesis by (auto simp: filterUsersForClient_def)
qed

section \<open>The store's query: auxiliary facts\<close>

lemma sort_key_desc:
  "sorted_wrt (\<lambda>a b. createdAt b \<le> createdAt a) (sort_key (\<lambda>p. - createdAt p) rows)"
proof -
  have "sorted (map (\<lambda>p. - createdAt p) (sort_key (\<lambda>p. - createdAt p) rows))"
    by (rule sorted_sort_key)
  then show ?thesis by (simp add: sorted_map)
qed

lemma findMany_length: "length (findMany rows args) \<le> take_arg args"
  by (simp add: findMany_def)

lemma findMany_desc: "sorted_wrt (\<lambda>a b. createdAt b \<le> createdAt a) (findMany rows args)"
  unfolding findMany_def by (rule sorted_wrt_take) (rule sort_key_desc)

lemma findMany_where:
  "where_authorId args = Some a \<Longrightarrow> p \<in> set (findMany rows args) \<Longrightarrow> authorId p = a \<and> p \<in> set rows"
  by (auto simp: findMany_def dest!: in_set_takeD)

lemma findMany_newest:
  assumes "where_authorId args = None" and "q \<in> set rows" and "q \<notin> set (findMany rows args)"
    and "p \<in> set (findMany rows args)"
  shows "createdAt q \<le> createdAt p"
proof -
  let ?s = "sort_key (\<lambda>p. - createdAt p) rows"
  let ?n = "take_arg args"
  from assms(1) have fm: "findMany rows args = take ?n ?s" by (simp add: findMany_def)
  have "sorted_wrt (\<lambda>a b. createdAt b \<le> createdAt a) (take ?n ?s @ drop ?n ?s)"
    using sort_key_desc [of rows] by simp
  then have ord: "\<forall>x \<in> set (take ?n ?s). \<forall>y \<in> set (drop ?n ?s). createdAt y \<le> createdAt x"
    unfolding sorted_wrt_append by blast
  have "q \<in> set (take ?n ?s @ drop ?n ?s)" using assms(2) by simp
  then have "q \<in> set (drop ?n ?s)" using assms(3) fm unfolding set_append by auto
  then show ?thesis using ord assms(4) fm by auto
qed

section \<open>Enrichment: the claims\<close>

text \<open>
  C10. Whenever \<open>addUserDataToPosts\<close> succeeds, its result has the length and the order of
  the input: the i-th full post holds the i-th input post, and its author is the profile
  that \<open>find\<close> picks for that post in the projected batch, the first one whose id equals
  the post's \<open>authorId\<close>.
\<close>

theorem addUserDataToPosts_pairs_in_order:
  assumes "addUserDataToPosts clerk posts = Inr fps"
  shows "length fps = length posts \<and>
         (\<forall>i < length posts.
            post (fps ! i) = posts ! i \<and>
            profile_id (author (fps ! i)) = authorId (posts ! i) \<and>
            find (\<lambda>user. profile_id user = authorId (posts ! i))
              (map filterUsersForClient (getUserList clerk (map authorId posts) 100))
              = Some (author (fps ! i)))"
proof -
  let ?users = "map filterUsersForClient (getUserList clerk (map authorId posts) 100)"
  from assms have run: "fullPosts ?users posts = Inr fps"
    by (simp add: addUserDataToPosts_def)
  have "length fps = length posts" by (rule fullPosts_length [OF run])
  moreover have "post (fps ! i) = posts ! i \<and>
      profile_id (author (fps ! i)) = authorId (posts ! i) \<and>
      find (\<lambda>user. profile_id user = authorId (posts ! i)) ?users = Some (author (fps ! i))"
    if "i < length posts" for i
    using fullPosts_nth [OF run that] find_profile_id by blast
  ultimately show ?thesis by blast
qed

theorem addUserDataToPosts_pairs_in_order_witness:
  "addUserDataToPosts (directory [alice, bob]) [post1, post2, post3]
     = Inr [\<lparr>post = post1, author = filterUsersForClient alice\<rparr>,
            \<lparr>post = post2, author = filterUsersForClient bob\<rparr>,
            \<lparr>post = post3, author = filterUsersForClient alice\<rparr>] \<and>
   profile_id (filterUsersForClient bob) = authorId post2 \<and>
   find (\<lambda>user. profile_id user = authorId post2)
     (map filterUsersForClient
        (getUserList (directory [alice, bob]) (map authorId [post1, post2, post3]) 100))
     = Some (filterUsersForClient bob)"
proof -
  have run: "addUserDataToPosts (directory [alice, bob]) [post1, post2, post3]
     = Inr [\<lparr>post = post1, author = filterUsersForClient alice\<rparr>,
            \<lparr>post = post2, author = filterUsersForClient bob\<rparr>,
            \<lparr>post = post3, author = filterUsersForClient alice\<rparr>]"
    by (simp add: addUserDataToPosts_def directory_def filterUsersForClient_def sample_defs)
  have one: "(1::nat) < length [post1, post2, post3]" by simp
  from addUserDataToPosts_pairs_in_order [OF run, THEN conjunct2, rule_format, OF one]
  show ?thesis using run by simp
qed

text \<open>
  C1. If some post of the input has an \<open>authorId\<close> that no user record of the batch returned
  by the identity directory carries, \<open>addUserDataToPosts\<close> throws the internal error and
  returns no list at all; so do \<open>getAll\<close> and \<open>getPostsByUserId\<close> when this happens for the
  posts they fetched. In a successful result every full post has an author: the projection
  of a user record of the batch whose id is the post's \<open>authorId\<close>.
\<close>

theorem addUserDataToPosts_all_or_nothing:
  "(unmatched clerk posts \<longrightarrow>
      addUserDataToPosts clerk posts =
        Inl (TRPCError INTERNAL_SERVER_ERROR ''Author for post not found'')) \<and>
   (unmatched clerk (findMany (prisma c) \<lparr>where_authorId = None, take_arg = 100\<rparr>) \<longrightarrow>
      getAll clerk c = Inl (TRPCError INTERNAL_SERVER_ERROR ''Author for post not found'')) \<and>
   (\<forall>a. getUser clerk input_id = Some a \<and>
        unmatched clerk (findMany (prisma c) \<lparr>where_authorId = Some (user_id a), take_arg = 100\<rparr>) \<longrightarrow>
      getPostsByUserId clerk c input_id =
        Inl (TRPCError INTERNAL_SERVER_ERROR ''Author for post not found'')) \<and>
   (\<forall>fps. addUserDataToPosts clerk posts = Inr fps \<longrightarrow>
      (\<forall>fp \<in> set fps. \<exists>u \<in> set (getUserList clerk (map authorId posts) 100).
          author fp = filterUsersForClient u \<and> user_id u = authorId (post fp)))"
proof (intro conjI impI allI ballI)
  assume "unmatched clerk posts"
  then show "addUserDataToPosts clerk posts =
      Inl (TRPCError INTERNAL_SERVER_ERROR ''Author for post not found'')"
    by (rule addUserDataToPosts_unmatched)
next
  assume "unmatched clerk (findMany (prisma c) \<lparr>where_authorId = None, take_arg = 100\<rparr>)"
  then show "getAll clerk c = Inl (TRPCError INTERNAL_SERVER_ERROR ''Author for post not found'')"
    by (simp add: getAll_def addUserDataToPosts_unmatched)
next
  fix a
  assume "getUser clerk input_id = Some a \<and>
    unmatched clerk (findMany (prisma c) \<lparr>where_authorId = Some (user_id a), take_arg = 100\<rparr>)"
  then show "getPostsByUserId clerk c input_id =
      Inl (TRPCError INTERNAL_SERVER_ERROR ''Author for post not found'')"
    by (simp add: getPostsByUserId_def addUserDataToPosts_unmatched)
next
  fix fps fp
  assume "addUserDataToPosts clerk posts = Inr fps" and "fp \<in> set fps"
  then show "\<exists>u \<in> set (getUserList clerk (map authorId posts) 100).
      author fp = filterUsersForClient u \<and> user_id u = authorId (post fp)"
    by (rule addUserDataToPosts_authors)
qed

theorem addUserDataToPosts_all_or_nothing_witness:
  "unmatched (directory [alice, bob]) [post1, orphan] \<and>
   addUserDataToPosts (directory [alice, bob]) [post1, orphan] =
     Inl (TRPCError INTERNAL_SERVER_ERROR ''Author for post not found'') \<and>
   unmatched (directory [alice, bob])
     (findMany (prisma (generateSSHelper_ctx [post1, orphan])) \<lparr>where_authorId = None, take_arg = 100\<rparr>) \<and>
   getAll (directory [alice, bob]) (generateSSHelper_ctx [post1, orphan]) =
     Inl (TRPCError INTERNAL_SERVER_ERROR ''Author for post not found'') \<and>
   getUser forgetful ''user_1'' = Some alice \<and>
   unmatched forgetful
     (findMany (prisma (generateSSHelper_ctx [post1, orphan]))
        \<lparr>where_authorId = Some (user_id alice), take_arg = 100\<rparr>) \<and>
   getPostsByUserId forgetful (generateSSHelper_ctx [post1, orphan]) ''user_1'' =
     Inl (TRPCError INTERNAL_SERVER_ERROR ''Author for post not found'') \<and>
   addUserDataToPosts (directory [alice, bob]) [post2] =
     Inr [\<lparr>post = post2, author = filterUsersForClient bob\<rparr>] \<and>
   (\<exists>u \<in> set (getUserList (directory [alice, bob]) (map authorId [post2]) 100).
      filterUsersForClient bob = filterUsersForClient u \<and> user_id u = authorId post2)"
proof -
  let ?D = "directory [alice, bob]"
  let ?c = "generateSSHelper_ctx [post1, orphan]"
  have h1: "unmatched ?D [post1, orphan]"
    by (simp add: unmatched_def directory_def sample_defs)
  have h2: "unmatched ?D (findMany (prisma ?c) \<lparr>where_authorId = None, take_arg = 100\<rparr>)"
    by (simp add: unmatched_def directory_def findMany_def generateSSHelper_ctx_def sample_defs)
  have h3: "getUser forgetful ''user_1'' = Some alice"
    by (simp add: forgetful_def)
  have h4: "unmatched forgetful
     (findMany (prisma ?c) \<lparr>where_authorId = Some (user_id alice), take_arg = 100\<rparr>)"
    by (simp add: unmatched_def forgetful_def findMany_def generateSSHelper_ctx_def sample_defs)
  have h5: "addUserDataToPosts ?D [post2] = Inr [\<lparr>post = post2, author = filterUsersForClient bob\<rparr>]"
    by (simp add: addUserDataToPosts_def directory_def filterUsersForClient_def sample_defs)
  note fails = addUserDataToPosts_all_or_nothing [of ?D "[post1, orphan]" ?c "''user_1''"]
  note fails' = addUserDataToPosts_all_or_nothing [of forgetful "[post1, orphan]" ?c "''user_1''"]
  note works = addUserDataToPosts_all_or_nothing [of ?D "[post2]" ?c "''user_1''"]
  have a: "addUserDataToPosts ?D [post1, orphan] =
     Inl (TRPCError INTERNAL_SERVER_ERROR ''Author for post not found'')"
    using fails h1 by blast
  have b: "getAll ?D ?c = Inl (TRPCError INTERNAL_SERVER_ERROR ''Author for post not found'')"
    using fails h2 by blast
  have c: "getPostsByUserId forgetful ?c ''user_1'' =
     Inl (TRPCError INTERNAL_SERVER_ERROR ''Author for post not found'')"
    using fails' h3 h4 by blast
  have d: "\<exists>u \<in> set (getUserList ?D (map authorId [post2]) 100).
      filterUsersForClient bob = filterUsersForClient u \<and> user_id u = authorId post2"
    using works h5 by fastforce
  show ?thesis using h1 h2 h3 h4 h5 a b c d by blast
qed

section \<open>Post listing: the claims\<close>

text \<open>
  C2. Whatever rows the post store holds, a list that \<open>getAll\<close> returns has at most 100
  full posts (as many as the store has rows, when those are fewer), and it is ordered by
  descending creation time: the most recently created post comes first, and no row left
  out is newer than a row returned.
\<close>

theorem getAll_at_most_100_newest_first:
  assumes "getAll clerk c = Inr fps"
  shows "length fps \<le> 100 \<and>
         length fps = min 100 (length (prisma c)) \<and>
         sorted_wrt (\<lambda>a b. createdAt (post b) \<le> createdAt (post a)) fps \<and>
         set (map post fps) \<subseteq> set (prisma c) \<and>
         (\<forall>q \<in> set (prisma c). q \<notin> set (map post fps) \<longrightarrow>
            (\<forall>fp \<in> set fps. createdAt q \<le> createdAt (post fp)))"
proof -
  let ?args = "\<lparr>where_authorId = None, take_arg = 100\<rparr>"
  let ?posts = "findMany (prisma c) ?args"
  from assms have "addUserDataToPosts clerk ?posts = Inr fps"
    by (simp add: getAll_def)
  then have posts: "map post fps = ?posts" by (rule addUserDataToPosts_posts)
  then have len: "length fps = length ?posts" by (metis length_map)
  have "length ?posts = min 100 (length (prisma c))"
    by (simp add: findMany_def min.commute)
  with len have l: "length fps = min 100 (length (prisma c))" by simp
  have "sorted_wrt (\<lambda>a b. createdAt b \<le> createdAt a) (map post fps)"
    unfolding posts by (rule findMany_desc)
  then have s: "sorted_wrt (\<lambda>a b. createdAt (post b) \<le> createdAt (post a)) fps"
    by (simp add: sorted_wrt_map)
  have sub: "set (map post fps) \<subseteq> set (prisma c)"
    unfolding posts by (auto simp: findMany_def dest: in_set_takeD)
  have new: "createdAt q \<le> createdAt (post fp)"
    if "q \<in> set (prisma c)" "q \<notin> set (map post fps)" "fp \<in> set fps" for q fp
  proof -
    have "post fp \<in> set ?posts" using that(3) posts by (metis image_eqI set_map)
    moreover have "q \<notin> set ?posts" using that(2) posts by simp
    ultimately show ?thesis using findMany_newest [of ?args q "prisma c" "post fp"] that(1) by simp
  qed
  from l s sub new show ?thesis by auto
qed

theorem getAll_at_most_100_newest_first_witness:
  "getAll (directory [alice, bob]) (generateSSHelper_ctx [post1, post2, post3])
     = Inr [\<lparr>post = post2, author = filterUsersForClient bob\<rparr>,
            \<lparr>post = post3, author = filterUsersForClient alice\<rparr>,
            \<lparr>post = post1, author = filterUsersForClient alice\<rparr>] \<and>
   length [\<lparr>post = post2, author = filterUsersForClient bob\<rparr>,
           \<lparr>post = post3, author = filterUsersForClient alice\<rparr>,
           \<lparr>post = post1, author = filterUsersForClient alice\<rparr>] \<le> 100 \<and>
   sorted_wrt (\<lambda>a b. createdAt (post b) \<le> createdAt (post a))
          [\<lparr>post = post2, author = filterUsersForClient bob\<rparr>,
           \<lparr>post = post3, author = filterUsersForClient alice\<rparr>,
           \<lparr>post = post1, author = filterUsersForClient alice\<rparr>]"
proof -
  have run: "getAll (directory [alice, bob]) (generateSSHelper_ctx [post1, post2, post3])
     = Inr [\<lparr>post = post2, author = filterUsersForClient bob\<rparr>,
            \<lparr>post = post3, author = filterUsersForClient alice\<rparr>,
            \<lparr>post = post1, author = filterUsersForClient alice\<rparr>]"
    by (simp add: getAll_def findMany_def addUserDataToPosts_def directory_def
        generateSSHelper_ctx_def filterUsersForClient_def sample_defs)
  from getAll_at_most_100_newest_first [OF run] show ?thesis using run by blast
qed

text \<open>
  C5. When the identity directory has no user for the identifier, \<open>getPostsByUserId\<close> throws
  the internal error. When it has one, the call returns: at most 100 full posts, every one
  a stored post of that author paired with that author's profile, ordered by descending
  creation time; they are the rows that the store's query selects for the author.
\<close>

theorem getPostsByUserId_unknown_or_enriched:
  "(getUser clerk input_id = None \<longrightarrow>
      getPostsByUserId clerk c input_id =
        Inl (TRPCError INTERNAL_SERVER_ERROR ''Author for post not found'')) \<and>
   (getUser (directory users) input_id \<noteq> None \<longrightarrow>
      (\<exists>fps. getPostsByUserId (directory users) c input_id = Inr fps \<and>
         length fps \<le> 100 \<and>
         sorted_wrt (\<lambda>a b. createdAt (post b) \<le> createdAt (post a)) fps \<and>
         (\<forall>fp \<in> set fps. post fp \<in> set (prisma c) \<and> authorId (post fp) = input_id \<and>
                           profile_id (author fp) = input_id) \<and>
         map post fps =
           findMany (prisma c) \<lparr>where_authorId = Some input_id, take_arg = 100\<rparr>))"
proof (intro conjI impI)
  assume "getUser clerk input_id = None"
  then show "getPostsByUserId clerk c input_id =
      Inl (TRPCError INTERNAL_SERVER_ERROR ''Author for post not found'')"
    by (simp add: getPostsByUserId_def)
next
  let ?D = "directory users"
  let ?args = "\<lparr>where_authorId = Some input_id, take_arg = 100\<rparr>"
  let ?posts = "findMany (prisma c) ?args"
  let ?batch = "getUserList ?D (map authorId ?posts) 100"
  assume "getUser ?D input_id \<noteq> None"
  then obtain a where a: "find (\<lambda>u. user_id u = input_id) users = Some a"
    by (auto simp: directory_def)
  then have ain: "a \<in> set users" and aid: "user_id a = input_id"
    by (auto simp: find_Some_iff)
  have own: "authorId p = input_id \<and> p \<in> set (prisma c)" if "p \<in> set ?posts" for p
    using findMany_where [of ?args input_id p "prisma c"] that by simp
  have call: "getPostsByUserId ?D c input_id = addUserDataToPosts ?D ?posts"
    using a aid by (simp add: getPostsByUserId_def directory_def)
  have "\<exists>u \<in> set (map filterUsersForClient ?batch). profile_id u = authorId p"
    if p: "p \<in> set ?posts" for p
  proof -
    let ?mine = "filter (\<lambda>u. user_id u \<in> set (map authorId ?posts)) users"
    have "authorId p \<in> set (map authorId ?posts)" using p by simp
    then have "a \<in> set ?mine" using ain aid own [OF p] by simp
    then have "?mine \<noteq> []" by (metis empty_iff list.set(1))
    then have "take 100 ?mine \<noteq> []" by simp
    then obtain u where u: "u \<in> set (take 100 ?mine)" by (meson last_in_set)
    then have "u \<in> set ?mine" by (rule in_set_takeD)
    then have "user_id u \<in> set (map authorId ?posts)" by simp
    then have "user_id u = input_id" using own by auto
    moreover have "u \<in> set ?batch" using u by (simp add: directory_def)
    ultimately show ?thesis using own [OF p] by (auto simp: filterUsersForClient_def)
  qed
  then obtain fps where run: "fullPosts (map filterUsersForClient ?batch) ?posts = Inr fps"
    using fullPosts_succeeds [of ?posts "map filterUsersForClient ?batch"] by blast
  then have res: "getPostsByUserId ?D c input_id = Inr fps"
    using call by (simp add: addUserDataToPosts_def)
  have posts: "map post fps = ?posts" by (rule fullPosts_posts [OF run])
  then have "length fps = length ?posts" by (metis length_map)
  then have l: "length fps \<le> 100" using findMany_length [of "prisma c" ?args] by simp
  have "sorted_wrt (\<lambda>a b. createdAt b \<le> createdAt a) (map post fps)"
    unfolding posts by (rule findMany_desc)
  then have s: "sorted_wrt (\<lambda>a b. createdAt (post b) \<le> createdAt (post a)) fps"
    by (simp add: sorted_wrt_map)
  have each: "post fp \<in> set (prisma c) \<and> authorId (post fp) = input_id \<and>
      profile_id (author fp) = input_id" if "fp \<in> set fps" for fp
  proof -
    have "post fp \<in> set ?posts" using that posts by (metis image_eqI set_map)
    then have o: "authorId (post fp) = input_id \<and> post fp \<in> set (prisma c)" by (rule own)
    from res call have "addUserDataToPosts ?D ?posts = Inr fps" by simp
    from addUserDataToPosts_authors [OF this that] o show ?thesis
      by (auto simp: filterUsersForClient_def)
  qed
  show "\<exists>fps. getPostsByUserId ?D c input_id = Inr fps \<and>
         length fps \<le> 100 \<and>
         sorted_wrt (\<lambda>a b. createdAt (post b) \<le> createdAt (post a)) fps \<and>
         (\<forall>fp \<in> set fps. post fp \<in> set (prisma c) \<and> authorId (post fp) = input_id \<and>
                           profile_id (author fp) = input_id) \<and>
         map post fps = ?posts"
    using res l s each posts by blast
qed

theorem getPostsByUserId_unknown_or_enriched_witness:
  "getUser (directory [alice, bob]) ''user_9'' = None \<and>
   getPostsByUserId (directory [alice, bob]) (generateSSHelper_ctx [post1, post2, post3]) ''user_9'' =
     Inl (TRPCError INTERNAL_SERVER_ERROR ''Author for post not found'') \<and>
   getUser (directory [alice, bob]) ''user_1'' \<noteq> None \<and>
   (\<exists>fps. getPostsByUserId (directory [alice, bob])
            (generateSSHelper_ctx [post1, post2, post3]) ''user_1'' = Inr fps \<and>
          length fps \<le> 100) \<and>
   getPostsByUserId (directory [alice, bob]) (generateSSHelper_ctx [post1, post2, post3]) ''user_1'' =
     Inr [\<lparr>post = post3, author = filterUsersForClient alice\<rparr>,
          \<lparr>post = post1, author = filterUsersForClient alice\<rparr>]"
proof -
  let ?D = "directory [alice, bob]"
  let ?c = "generateSSHelper_ctx [post1, post2, post3]"
  have h1: "getUser ?D ''user_9'' = None" by (simp add: directory_def sample_defs)
  have h2: "getUser ?D ''user_1'' \<noteq> None" by (simp add: directory_def sample_defs)
  from getPostsByUserId_unknown_or_enriched [of ?D "''user_9''" ?c "[alice, bob]"] h1
  have a: "getPostsByUserId ?D ?c ''user_9'' =
     Inl (TRPCError INTERNAL_SERVER_ERROR ''Author for post not found'')" by blast
  from getPostsByUserId_unknown_or_enriched [of ?D "''user_1''" ?c "[alice, bob]"] h2
  have b: "\<exists>fps. getPostsByUserId ?D ?c ''user_1'' = Inr fps \<and> length fps \<le> 100"
    by blast
  have "getPostsByUserId ?D ?c ''user_1'' =
     Inr [\<lparr>post = post3, author = filterUsersForClient alice\<rparr>,
          \<lparr>post = post1, author = filterUsersForClient alice\<rparr>]"
    by (simp add: getPostsByUserId_def findMany_def addUserDataToPosts_def directory_def
        generateSSHelper_ctx_def filterUsersForClient_def sample_defs)
  with h1 h2 a b show ?thesis by blast
qed

section \<open>Post creation: auxiliary facts\<close>

lemma create_unauthenticated:
  "currentUserId c = None \<Longrightarrow>
   create limit gen c x rl = (Inl (TRPCError UNAUTHORIZED ''UNAUTHORIZED''), rl, prisma c)"
  by (simp add: create_def privateProcedure_def)

lemma create_invalid:
  "currentUserId c = Some a \<Longrightarrow> length x < 1 \<or> 255 < length x \<Longrightarrow>
   create limit gen c x rl =
     (Inl (TRPCError BAD_REQUEST (if length x < 1 then ''Can't create empty post'' else ''Post too long'')),
      rl, prisma c)"
  by (auto simp: create_def privateProcedure_def create_input_def)

lemma create_limited:
  "currentUserId c = Some a \<Longrightarrow> 1 \<le> length x \<Longrightarrow> length x \<le> 255 \<Longrightarrow> \<not> fst (limit a rl) \<Longrightarrow>
   create limit gen c x rl =
     (Inl (TRPCError TOO_MANY_REQUESTS ''Too many post requests''), snd (limit a rl), prisma c)"
  by (auto simp: create_def privateProcedure_def create_input_def split: prod.splits)

lemma create_granted:
  "currentUserId c = Some a \<Longrightarrow> 1 \<le> length x \<Longrightarrow> length x \<le> 255 \<Longrightarrow> fst (limit a rl) \<Longrightarrow>
   create limit gen c x rl =
     (Inr \<lparr>post_id = fst gen, content = x, authorId = a, createdAt = snd gen\<rparr>,
      snd (limit a rl),
      prisma c @ [\<lparr>post_id = fst gen, content = x, authorId = a, createdAt = snd gen\<rparr>])"
  by (auto simp: create_def privateProcedure_def create_input_def post_create_def Let_def
      split: prod.splits)

section \<open>Post creation: the claims\<close>

text \<open>
  C8. A \<open>create\<close> call with content of valid length (1 to 255 characters) and no
  authenticated identity in the request context is rejected at the gate: the limiter's
  state is the one before the call, so nothing was consumed, and the rows are the ones
  before the call, so nothing was inserted.
\<close>

theorem create_unauthenticated_rejected:
  assumes "currentUserId c = None" and "1 \<le> length x" and "length x \<le> 255"
  shows "create limit gen c x rl = (Inl (TRPCError UNAUTHORIZED ''UNAUTHORIZED''), rl, prisma c)"
  using assms(1) by (rule create_unauthenticated)

theorem create_unauthenticated_rejected_witness:
  "currentUserId (generateSSHelper_ctx [post1]) = None \<and>
   1 \<le> length ''hello'' \<and> length ''hello'' \<le> 255 \<and>
   create (ratelimit_limit 5000) (''p5'', 5000) (generateSSHelper_ctx [post1]) ''hello'' [] =
     (Inl (TRPCError UNAUTHORIZED ''UNAUTHORIZED''), [], [post1])"
proof -
  have h1: "currentUserId (generateSSHelper_ctx [post1]) = None"
    by (simp add: generateSSHelper_ctx_def)
  have h2: "1 \<le> length ''hello''" and h3: "length ''hello'' \<le> 255" by simp_all
  from create_unauthenticated_rejected [OF h1 h2 h3, of "ratelimit_limit 5000" "(''p5'', 5000)" "[]"]
  show ?thesis using h1 by (simp add: generateSSHelper_ctx_def)
qed

text \<open>
  C9. A \<open>create\<close> call whose content fails validation leaves the rate limiter as it was:
  the limiter's state after the call equals the state before it. The limiter is not even
  asked, since the outcome of the call is the same whatever limiter is plugged in.
\<close>

theorem create_invalid_keeps_limiter:
  assumes "length x < 1 \<or> 255 < length x"
  shows "fst (snd (create limit gen c x rl)) = rl \<and>
         (\<forall>limit'. create limit' gen c x rl = create limit gen c x rl)"
  using assms
  by (cases "currentUserId c") (auto simp: create_def privateProcedure_def create_input_def)

theorem create_invalid_keeps_limiter_witness:
  "(length '''' < 1 \<or> 255 < length '''') \<and>
   fst (snd (create (ratelimit_limit 5000) (''p5'', 5000)
      \<lparr>prisma = [post1], currentUserId = Some ''user_1''\<rparr> '''' [(''user_1'', 1000)]))
     = [(''user_1'', 1000)]"
proof -
  have h: "length '''' < 1 \<or> 255 < length ''''" by simp
  from create_invalid_keeps_limiter [OF h, of "ratelimit_limit 5000" "(''p5'', 5000)"
      "\<lparr>prisma = [post1], currentUserId = Some ''user_1''\<rparr>" "[(''user_1'', 1000)]"]
  show ?thesis using h by blast
qed

text \<open>
  C4. In a \<open>create\<close> call by an authenticated caller whose content passed the schema, the
  limiter is asked with the caller's identity as key: its state after the call is the one
  that question leaves. If it answers no success, the call throws \<open>TOO_MANY_REQUESTS\<close> and
  the rows are the ones before the call. In any authenticated call, rows different from
  the ones before the call mean the limiter was asked with that key and answered success.
\<close>

theorem create_rate_limit_gate:
  assumes "currentUserId c = Some a"
  shows "(1 \<le> length x \<and> length x \<le> 255 \<longrightarrow>
            fst (snd (create limit gen c x rl)) = snd (limit a rl)) \<and>
         (1 \<le> length x \<and> length x \<le> 255 \<and> \<not> fst (limit a rl) \<longrightarrow>
            create limit gen c x rl =
              (Inl (TRPCError TOO_MANY_REQUESTS ''Too many post requests''),
               snd (limit a rl), prisma c)) \<and>
         (snd (snd (create limit gen c x rl)) \<noteq> prisma c \<longrightarrow>
            fst (limit a rl) \<and> fst (snd (create limit gen c x rl)) = snd (limit a rl))"
proof (intro conjI impI)
  assume v: "1 \<le> length x \<and> length x \<le> 255"
  show "fst (snd (create limit gen c x rl)) = snd (limit a rl)"
  proof (cases "fst (limit a rl)")
    case True
    with assms v show ?thesis by (simp add: create_granted)
  next
    case False
    with assms v show ?thesis by (simp add: create_limited)
  qed
next
  assume "1 \<le> length x \<and> length x \<le> 255 \<and> \<not> fst (limit a rl)"
  with assms show "create limit gen c x rl =
      (Inl (TRPCError TOO_MANY_REQUESTS ''Too many post requests''), snd (limit a rl), prisma c)"
    by (simp add: create_limited)
next
  assume w: "snd (snd (create limit gen c x rl)) \<noteq> prisma c"
  have v: "1 \<le> length x \<and> length x \<le> 255"
  proof (rule ccontr)
    assume "\<not> ?thesis"
    then have "length x < 1 \<or> 255 < length x" by arith
    from create_invalid [OF assms this, of limit gen rl] w show False by simp
  qed
  have g: "fst (limit a rl)"
  proof (rule ccontr)
    assume "\<not> ?thesis"
    with assms v w show False by (simp add: create_limited)
  qed
  show "fst (limit a rl)" by (rule g)
  show "fst (snd (create limit gen c x rl)) = snd (limit a rl)"
    using assms v g by (simp add: create_granted)
qed

theorem create_rate_limit_gate_witness:
  "currentUserId \<lparr>prisma = [post1], currentUserId = Some ''user_1''\<rparr> = Some ''user_1'' \<and>
   (1 \<le> length ''hello'' \<and> length ''hello'' \<le> 255 \<and>
    \<not> fst (ratelimit_limit 5000 ''user_1'' [(''user_1'', 3000), (''user_1'', 2000), (''user_1'', 1000)])) \<and>
   create (ratelimit_limit 5000) (''p5'', 5000)
      \<lparr>prisma = [post1], currentUserId = Some ''user_1''\<rparr> ''hello''
      [(''user_1'', 3000), (''user_1'', 2000), (''user_1'', 1000)] =
     (Inl (TRPCError TOO_MANY_REQUESTS ''Too many post requests''),
      [(''user_1'', 3000), (''user_1'', 2000), (''user_1'', 1000)], [post1]) \<and>
   snd (snd (create (ratelimit_limit 5000) (''p5'', 5000)
      \<lparr>prisma = [post1], currentUserId = Some ''user_1''\<rparr> ''hello'' [])) \<noteq>
     prisma \<lparr>prisma = [post1], currentUserId = Some ''user_1''\<rparr> \<and>
   fst (ratelimit_limit 5000 ''user_1'' [])"
proof -
  let ?c = "\<lparr>prisma = [post1], currentUserId = Some ''user_1''\<rparr>"
  let ?full = "[(''user_1'', 3000), (''user_1'', 2000), (''user_1'', 1000 :: int)]"
  have h1: "currentUserId ?c = Some ''user_1''" by simp
  have h2: "1 \<le> length ''hello'' \<and> length ''hello'' \<le> 255 \<and>
      \<not> fst (ratelimit_limit 5000 ''user_1'' ?full)"
    by (simp add: ratelimit_limit_def slidingWindow_def in_window_def)
  have h3: "snd (snd (create (ratelimit_limit 5000) (''p5'', 5000) ?c ''hello'' [])) \<noteq> prisma ?c"
    by (simp add: create_def privateProcedure_def create_input_def post_create_def Let_def
        ratelimit_limit_def slidingWindow_def in_window_def)
  note gate = create_rate_limit_gate [OF h1, of "''hello''" "ratelimit_limit 5000" "(''p5'', 5000)"]
  have a: "create (ratelimit_limit 5000) (''p5'', 5000) ?c ''hello'' ?full =
     (Inl (TRPCError TOO_MANY_REQUESTS ''Too many post requests''),
      snd (ratelimit_limit 5000 ''user_1'' ?full), [post1])"
    using gate [of ?full] h2 by simp
  have b: "snd (ratelimit_limit 5000 ''user_1'' ?full) = ?full"
    by (simp add: ratelimit_limit_def slidingWindow_def in_window_def)
  have c: "fst (ratelimit_limit 5000 ''user_1'' [])"
    using gate [of "[]"] h3 by blast
  show ?thesis using h1 h2 h3 a b c by simp
qed

text \<open>
  C6. A \<open>create\<close> call by an authenticated caller, with content of valid length, to which
  the limiter answers success, inserts exactly one row: the rows after the call are the
  rows before it followed by the new post. The post's content is the content sent and
  its \<open>authorId\<close> is the caller's identity from the request context; its id and creation
  time are the store's. The call returns that post, a plain \<open>Post\<close> with no author profile.
\<close>

theorem create_inserts_one_post:
  assumes "currentUserId c = Some a" and "1 \<le> length x" and "length x \<le> 255"
    and "fst (limit a rl)"
  shows "\<exists>p. create limit gen c x rl = (Inr p, snd (limit a rl), prisma c @ [p]) \<and>
             content p = x \<and> authorId p = a \<and> post_id p = fst gen \<and> createdAt p = snd gen"
  using assms by (simp add: create_granted)

theorem create_inserts_one_post_witness:
  "currentUserId \<lparr>prisma = [post1], currentUserId = Some ''user_2''\<rparr> = Some ''user_2'' \<and>
   1 \<le> length ''hello'' \<and> length ''hello'' \<le> 255 \<and>
   fst (ratelimit_limit 5000 ''user_2'' [(''user_1'', 1000)]) \<and>
   create (ratelimit_limit 5000) (''p5'', 5000)
      \<lparr>prisma = [post1], currentUserId = Some ''user_2''\<rparr> ''hello'' [(''user_1'', 1000)] =
     (Inr \<lparr>post_id = ''p5'', content = ''hello'', authorId = ''user_2'', createdAt = 5000\<rparr>,
      [(''user_2'', 5000), (''user_1'', 1000)],
      [post1, \<lparr>post_id = ''p5'', content = ''hello'', authorId = ''user_2'', createdAt = 5000\<rparr>])"
proof -
  let ?c = "\<lparr>prisma = [post1], currentUserId = Some ''user_2''\<rparr>"
  have h1: "currentUserId ?c = Some ''user_2''" by simp
  have h2: "1 \<le> length ''hello''" and h3: "length ''hello'' \<le> 255" by simp_all
  have h4: "fst (ratelimit_limit 5000 ''user_2'' [(''user_1'', 1000)])"
    by (simp add: ratelimit_limit_def slidingWindow_def in_window_def)
  have l: "snd (ratelimit_limit 5000 ''user_2'' [(''user_1'', 1000)]) =
      [(''user_2'', 5000), (''user_1'', 1000)]"
    by (simp add: ratelimit_limit_def slidingWindow_def in_window_def)
  from create_inserts_one_post [where limit = "ratelimit_limit 5000" and a = "''user_2''"
      and rl = "[(''user_1'', 1000)]" and gen = "(''p5'', 5000)", OF h1 h2 h3 h4]
  obtain p where p: "create (ratelimit_limit 5000) (''p5'', 5000) ?c ''hello'' [(''user_1'', 1000)] =
      (Inr p, snd (ratelimit_limit 5000 ''user_2'' [(''user_1'', 1000)]), prisma ?c @ [p])"
    and f: "content p = ''hello''" "authorId p = ''user_2''" "post_id p = fst (''p5'', 5000 :: int)"
      "createdAt p = snd (''p5'', 5000 :: int)"
    by blast
  from f have "p = \<lparr>post_id = ''p5'', content = ''hello'', authorId = ''user_2'', createdAt = 5000\<rparr>"
    by (cases p) simp
  with p l h1 h2 h3 h4 show ?thesis by simp
qed

text \<open>
  C3, as the code has it. A \<open>create\<close> call whose content has length 0 or more than 255 is
  rejected before any side effect: the limiter's state and the rows are the ones before
  the call. When the caller is authenticated the rejection is the validation error of the
  schema. (When the caller is not, the gate of \<open>privateProcedure\<close>, which comes first in the
  chain, has already rejected the call with its own error, as the counterexample shows.)
\<close>

theorem create_invalid_content_rejected:
  assumes "length x = 0 \<or> 255 < length x"
  shows "\<exists>e. create limit gen c x rl = (Inl e, rl, prisma c) \<and>
             (currentUserId c \<noteq> None \<longrightarrow>
                e = TRPCError BAD_REQUEST
                      (if length x = 0 then ''Can't create empty post'' else ''Post too long''))"
proof (cases "currentUserId c")
  case None
  then show ?thesis by (simp add: create_unauthenticated)
next
  case (Some a)
  from assms have "length x < 1 \<or> 255 < length x" by auto
  from create_invalid [OF Some this, of limit gen rl] Some show ?thesis by auto
qed

theorem create_invalid_content_rejected_witness:
  "(length '''' = 0 \<or> 255 < length '''') \<and>
   currentUserId \<lparr>prisma = [post1], currentUserId = Some ''user_1''\<rparr> \<noteq> None \<and>
   create (ratelimit_limit 5000) (''p5'', 5000)
      \<lparr>prisma = [post1], currentUserId = Some ''user_1''\<rparr> '''' [] =
     (Inl (TRPCError BAD_REQUEST ''Can't create empty post''), [], [post1])"
proof -
  let ?c = "\<lparr>prisma = [post1], currentUserId = Some ''user_1''\<rparr>"
  have h: "length '''' = 0 \<or> 255 < length ''''" by simp
  have u: "currentUserId ?c \<noteq> None" by simp
  from create_invalid_content_rejected [OF h, of "ratelimit_limit 5000" "(''p5'', 5000)" ?c "[]"] u
  have "create (ratelimit_limit 5000) (''p5'', 5000) ?c '''' [] =
     (Inl (TRPCError BAD_REQUEST ''Can't create empty post''), [], [post1])"
    by auto
  with h u show ?thesis by blast
qed

text \<open>
  C3, as the claim states it, fails for a caller who is not signed in: with empty content
  the call is rejected with the gate's error, not with a validation error.
\<close>

theorem create_invalid_content_counterexample:
  "length '''' = 0 \<and>
   create (ratelimit_limit 5000) (''p5'', 5000) (generateSSHelper_ctx [post1]) '''' [] =
     (Inl (TRPCError UNAUTHORIZED ''UNAUTHORIZED''), [], [post1]) \<and>
   create (ratelimit_limit 5000) (''p5'', 5000) (generateSSHelper_ctx [post1]) '''' [] \<noteq>
     (Inl (TRPCError BAD_REQUEST ''Can't create empty post''), [], [post1])"
  by (simp add: create_def privateProcedure_def generateSSHelper_ctx_def)

section \<open>Rate limiting policy: auxiliary facts\<close>

lemma length_filter_mono:
  "(\<And>x. x \<in> set xs \<Longrightarrow> P x \<Longrightarrow> Q x) \<Longrightarrow> length (filter P xs) \<le> length (filter Q xs)"
proof (induction xs)
  case Nil
  then show ?case by simp
next
  case (Cons y ys)
  then have "length (filter P ys) \<le> length (filter Q ys)" by simp
  moreover have "P y \<Longrightarrow> Q y" using Cons.prems by simp
  ultimately show ?case by auto
qed

lemma within_policy_window:
  "within_policy log \<Longrightarrow>
   length (filter (\<lambda>e. fst e = key \<and> s \<le> snd e \<and> snd e < s + 60000) log) \<le> 3"
proof (induction log)
  case Nil
  then show ?case by simp
next
  case (Cons e log)
  define W where "W = (\<lambda>e :: string \<times> int. fst e = key \<and> s \<le> snd e \<and> snd e < s + 60000)"
  from Cons have IH: "length (filter W log) \<le> 3" by (simp add: W_def)
  have "length (filter W (e # log)) \<le> 3"
  proof (cases "W e")
    case False
    then show ?thesis using IH by simp
  next
    case True
    have "length (filter W log) \<le> length (in_window 60000 (snd e) (fst e) log)"
      unfolding in_window_def using True by (intro length_filter_mono) (auto simp: W_def)
    also have "\<dots> < 3" using Cons.prems by simp
    finally show ?thesis using True by simp
  qed
  then show ?case by (simp only: W_def)
qed

lemma ratelimit_limit_within_policy:
  "within_policy log \<Longrightarrow> within_policy (snd (ratelimit_limit now key log))"
  by (simp add: ratelimit_limit_def slidingWindow_def)

lemma create_limiter_state:
  "fst (snd (create limit gen c x rl)) = rl \<or>
   (\<exists>a. fst (snd (create limit gen c x rl)) = snd (limit a rl))"
proof (cases "currentUserId c")
  case None
  then show ?thesis by (simp add: create_unauthenticated)
next
  case (Some a)
  show ?thesis
  proof (cases "1 \<le> length x \<and> length x \<le> 255")
    case False
    then have "length x < 1 \<or> 255 < length x" by arith
    from create_invalid [OF Some this, of limit gen rl] show ?thesis by simp
  next
    case True
    have "fst (snd (create limit gen c x rl)) = snd (limit a rl)"
      using Some True by (cases "fst (limit a rl)") (simp_all add: create_granted create_limited)
    then show ?thesis by blast
  qed
qed

lemma create_call_within_policy:
  assumes "within_policy (fst w)"
  shows "within_policy (fst (snd (create_call k w)))"
  using create_limiter_state [of "ratelimit_limit (call_time k)" "(call_row_id k, call_time k)"
      "\<lparr>prisma = snd w, currentUserId = call_user k\<rparr>" "call_content k" "fst w"] assms
  by (auto simp: create_call_def ratelimit_limit_within_policy)

lemma run_creates_within_policy:
  "within_policy (fst w) \<Longrightarrow> within_policy (fst (run_creates ks w))"
proof (induction ks arbitrary: w)
  case Nil
  then show ?case by simp
next
  case (Cons k ks)
  have "within_policy (fst (snd (create_call k w)))"
    using Cons.prems by (rule create_call_within_policy)
  then show ?case using Cons.IH by simp
qed

text \<open>The rows written by a run of calls are the consumptions granted, oldest first.\<close>

lemma create_call_rows_log:
  assumes "map (\<lambda>p. (authorId p, createdAt p)) (snd w) = rev (fst w)"
  shows "map (\<lambda>p. (authorId p, createdAt p)) (snd (snd (create_call k w))) =
         rev (fst (snd (create_call k w)))"
proof (cases "call_user k")
  case None
  then show ?thesis using assms by (simp add: create_call_def create_unauthenticated)
next
  case (Some a)
  let ?c = "\<lparr>prisma = snd w, currentUserId = call_user k\<rparr>"
  have u: "currentUserId ?c = Some a" using Some by simp
  show ?thesis
  proof (cases "1 \<le> length (call_content k) \<and> length (call_content k) \<le> 255")
    case False
    then have "length (call_content k) < 1 \<or> 255 < length (call_content k)" by arith
    from create_invalid [OF u this, of "ratelimit_limit (call_time k)" "(call_row_id k, call_time k)" "fst w"]
    show ?thesis using assms by (simp add: create_call_def)
  next
    case True
    show ?thesis
    proof (cases "fst (ratelimit_limit (call_time k) a (fst w))")
      case False
      then have "snd (ratelimit_limit (call_time k) a (fst w)) = fst w"
        by (auto simp: ratelimit_limit_def slidingWindow_def split: if_splits)
      then show ?thesis using u True False assms
        by (simp add: create_call_def create_limited)
    next
      case g: True
      then have "snd (ratelimit_limit (call_time k) a (fst w)) = (a, call_time k) # fst w"
        by (auto simp: ratelimit_limit_def slidingWindow_def split: if_splits)
      then show ?thesis using u True g assms
        by (simp add: create_call_def create_granted)
    qed
  qed
qed

lemma run_creates_rows_log:
  "map (\<lambda>p. (authorId p, createdAt p)) (snd w) = rev (fst w) \<Longrightarrow>
   map (\<lambda>p. (authorId p, createdAt p)) (snd (run_creates ks w)) = rev (fst (run_creates ks w))"
proof (induction ks arbitrary: w)
  case Nil
  then show ?case by simp
next
  case (Cons k ks)
  from create_call_rows_log [OF Cons.prems, of k] show ?case
    using Cons.IH [of "snd (create_call k w)"] by simp
qed

lemma rows_window_count:
  assumes "map (\<lambda>p. (authorId p, createdAt p)) rows = rev log"
  shows "length (filter (\<lambda>p. authorId p = key \<and> s \<le> createdAt p \<and> createdAt p < s + 60000) rows) =
         length (filter (\<lambda>e. fst e = key \<and> s \<le> snd e \<and> snd e < s + 60000) log)"
proof -
  let ?W = "\<lambda>e :: string \<times> int. fst e = key \<and> s \<le> snd e \<and> snd e < s + 60000"
  have "length (filter (\<lambda>p. authorId p = key \<and> s \<le> createdAt p \<and> createdAt p < s + 60000) rows) =
        length (filter ?W (map (\<lambda>p. (authorId p, createdAt p)) rows))"
    by (simp add: filter_map comp_def)
  also have "\<dots> = length (filter ?W (rev log))" using assms by simp
  also have "\<dots> = length (filter ?W log)" by (simp flip: rev_filter)
  finally show ?thesis .
qed

section \<open>Rate limiting policy: the claim\<close>

text \<open>
  C7. Under the policy of 3 consumptions per rolling minute: after any sequence of \<open>create\<close>
  calls, by whatever callers at whatever times, the limiter has granted at most 3
  consumptions to any one key within any window of 60 seconds, and the store holds at most
  3 posts of any one author created within any such window. A \<open>create\<close> call by an author
  with valid content is rejected with \<open>TOO_MANY_REQUESTS\<close>, writing nothing, when 3
  consumptions granted to that author lie less than 60 seconds back; it succeeds, writing
  its row and consuming a token, when fewer than 3 do, so also once the window has elapsed.
\<close>

theorem three_creates_per_minute:
  "length (filter (\<lambda>e. fst e = key \<and> s \<le> snd e \<and> snd e < s + 60000)
             (fst (run_creates ks ([], [])))) \<le> 3 \<and>
   length (filter (\<lambda>p. authorId p = key \<and> s \<le> createdAt p \<and> createdAt p < s + 60000)
             (snd (run_creates ks ([], [])))) \<le> 3 \<and>
   (call_user k = Some key \<and> 1 \<le> length (call_content k) \<and> length (call_content k) \<le> 255 \<and>
    3 \<le> length (filter (\<lambda>e. fst e = key \<and> call_time k - snd e < 60000) log) \<longrightarrow>
      create_call k (log, rows) =
        (Inl (TRPCError TOO_MANY_REQUESTS ''Too many post requests''), log, rows)) \<and>
   (call_user k = Some key \<and> 1 \<le> length (call_content k) \<and> length (call_content k) \<le> 255 \<and>
    length (filter (\<lambda>e. fst e = key \<and> call_time k - snd e < 60000) log) < 3 \<longrightarrow>
      (\<exists>p. create_call k (log, rows) = (Inr p, (key, call_time k) # log, rows @ [p]) \<and>
           authorId p = key \<and> content p = call_content k \<and> createdAt p = call_time k))"
proof (intro conjI impI)
  let ?w = "run_creates ks ([], [])"
  have pol: "within_policy (fst ?w)"
    by (rule run_creates_within_policy) simp
  then show log_bound: "length (filter (\<lambda>e. fst e = key \<and> s \<le> snd e \<and> snd e < s + 60000) (fst ?w)) \<le> 3"
    by (rule within_policy_window)
  have "map (\<lambda>p. (authorId p, createdAt p)) (snd ?w) = rev (fst ?w)"
    by (rule run_creates_rows_log) simp
  from rows_window_count [OF this, of key s] log_bound
  show "length (filter (\<lambda>p. authorId p = key \<and> s \<le> createdAt p \<and> createdAt p < s + 60000)
      (snd ?w)) \<le> 3"
    by simp
next
  let ?c = "\<lparr>prisma = rows, currentUserId = call_user k\<rparr>"
  assume h: "call_user k = Some key \<and> 1 \<le> length (call_content k) \<and> length (call_content k) \<le> 255 \<and>
    3 \<le> length (filter (\<lambda>e. fst e = key \<and> call_time k - snd e < 60000) log)"
  then have no: "\<not> fst (ratelimit_limit (call_time k) key log)"
    and same: "snd (ratelimit_limit (call_time k) key log) = log"
    by (simp_all add: ratelimit_limit_def slidingWindow_def in_window_def)
  have "currentUserId ?c = Some key" using h by simp
  then show "create_call k (log, rows) =
      (Inl (TRPCError TOO_MANY_REQUESTS ''Too many post requests''), log, rows)"
    using h no same by (simp add: create_call_def create_limited)
next
  let ?c = "\<lparr>prisma = rows, currentUserId = call_user k\<rparr>"
  assume h: "call_user k = Some key \<and> 1 \<le> length (call_content k) \<and> length (call_content k) \<le> 255 \<and>
    length (filter (\<lambda>e. fst e = key \<and> call_time k - snd e < 60000) log) < 3"
  then have yes: "fst (ratelimit_limit (call_time k) key log)"
    and more: "snd (ratelimit_limit (call_time k) key log) = (key, call_time k) # log"
    by (simp_all add: ratelimit_limit_def slidingWindow_def in_window_def)
  have "currentUserId ?c = Some key" using h by simp
  then show "\<exists>p. create_call k (log, rows) = (Inr p, (key, call_time k) # log, rows @ [p]) \<and>
      authorId p = key \<and> content p = call_content k \<and> createdAt p = call_time k"
    using h yes more by (simp add: create_call_def create_granted)
qed

theorem three_creates_per_minute_witness:
  "run_creates [call_at 0, call_at 10000, call_at 20000] ([], []) =
     ([(''user_1'', 20000), (''user_1'', 10000), (''user_1'', 0)],
      [row_at 0, row_at 10000, row_at 20000]) \<and>
   (call_user (call_at 59999) = Some ''user_1'' \<and>
    1 \<le> length (call_content (call_at 59999)) \<and> length (call_content (call_at 59999)) \<le> 255 \<and>
    3 \<le> length (filter (\<lambda>e. fst e = ''user_1'' \<and> call_time (call_at 59999) - snd e < 60000)
           [(''user_1'', 20000), (''user_1'', 10000), (''user_1'', 0)])) \<and>
   create_call (call_at 59999)
      ([(''user_1'', 20000), (''user_1'', 10000), (''user_1'', 0)],
       [row_at 0, row_at 10000, row_at 20000]) =
     (Inl (TRPCError TOO_MANY_REQUESTS ''Too many post requests''),
      [(''user_1'', 20000), (''user_1'', 10000), (''user_1'', 0)],
      [row_at 0, row_at 10000, row_at 20000]) \<and>
   (call_user (call_at 60000) = Some ''user_1'' \<and>
    1 \<le> length (call_content (call_at 60000)) \<and> length (call_content (call_at 60000)) \<le> 255 \<and>
    length (filter (\<lambda>e. fst e = ''user_1'' \<and> call_time (call_at 60000) - snd e < 60000)
           [(''user_1'', 20000), (''user_1'', 10000), (''user_1'', 0)]) < 3) \<and>
   (\<exists>p. create_call (call_at 60000)
          ([(''user_1'', 20000), (''user_1'', 10000), (''user_1'', 0)],
           [row_at 0, row_at 10000, row_at 20000]) =
        (Inr p, [(''user_1'', 60000), (''user_1'', 20000), (''user_1'', 10000), (''user_1'', 0)],
         [row_at 0, row_at 10000, row_at 20000, p]))"
proof -
  let ?log = "[(''user_1'', 20000), (''user_1'', 10000), (''user_1'', 0 :: int)]"
  let ?rows = "[row_at 0, row_at 10000, row_at 20000]"
  have run: "run_creates [call_at 0, call_at 10000, call_at 20000] ([], []) = (?log, ?rows)"
    by (simp add: create_call_def create_def privateProcedure_def create_input_def
        post_create_def Let_def ratelimit_limit_def slidingWindow_def in_window_def
        call_at_def row_at_def)
  have h1: "call_user (call_at 59999) = Some ''user_1'' \<and>
    1 \<le> length (call_content (call_at 59999)) \<and> length (call_content (call_at 59999)) \<le> 255 \<and>
    3 \<le> length (filter (\<lambda>e. fst e = ''user_1'' \<and> call_time (call_at 59999) - snd e < 60000) ?log)"
    by (simp add: call_at_def)
  have h2: "call_user (call_at 60000) = Some ''user_1'' \<and>
    1 \<le> length (call_content (call_at 60000)) \<and> length (call_content (call_at 60000)) \<le> 255 \<and>
    length (filter (\<lambda>e. fst e = ''user_1'' \<and> call_time (call_at 60000) - snd e < 60000) ?log) < 3"
    by (simp add: call_at_def)
  have t: "call_time (call_at 60000) = 60000" by (simp add: call_at_def)
  from three_creates_per_minute [where k = "call_at 59999" and key = "''user_1''" and log = ?log
      and rows = ?rows] h1
  have a: "create_call (call_at 59999) (?log, ?rows) =
     (Inl (TRPCError TOO_MANY_REQUESTS ''Too many post requests''), ?log, ?rows)"
    by blast
  from three_creates_per_minute [where k = "call_at 60000" and key = "''user_1''" and log = ?log
      and rows = ?rows] h2
  have "\<exists>p. create_call (call_at 60000) (?log, ?rows) =
      (Inr p, (''user_1'', call_time (call_at 60000)) # ?log, ?rows @ [p])"
    by blast
  then have b: "\<exists>p. create_call (call_at 60000) (?log, ?rows) =
      (Inr p, (''user_1'', 60000) # ?log, [row_at 0, row_at 10000, row_at 20000, p])"
    by (simp add: t)
  from run h1 a h2 b show ?thesis by blast
qed

end
